theory Spec2Isabelle
  imports Complex_Main
begin

section \<open>Numeric arrays\<close>

text \<open>
  A one-dimensional \<^verbatim>\<open>np.ndarray\<close> of floats is a list of reals. Arithmetic is exact:
  the rounding of IEEE doubles and the value NaN are outside this model.
\<close>

datatype error = IndexError | ValueError | TypeError | KeyError | PredictError

text \<open>\<^verbatim>\<open>np.clip(a, a_min, a_max)\<close> on one element: \<^verbatim>\<open>minimum(a_max, maximum(a, a_min))\<close>.\<close>

definition np_clip :: "real \<Rightarrow> real \<Rightarrow> real \<Rightarrow> real" where
  "np_clip a a_min a_max = min a_max (max a a_min)"

text \<open>\<^verbatim>\<open>d.get(key, default)\<close> on a dictionary kept as an association list.\<close>

definition dict_get :: "(string \<times> 'v) list \<Rightarrow> string \<Rightarrow> 'v \<Rightarrow> 'v" where
  "dict_get d k dflt = (case map_of d k of None \<Rightarrow> dflt | Some v \<Rightarrow> v)"

section \<open>Scenario simulation (backend/scenario\_simulation.py)\<close>

record scenario =
  name :: string
  description :: string
  demand_multiplier :: "(string \<times> real) list"
  risk_adjustment :: "(string \<times> real) list"

definition SCENARIOS :: "(string \<times> scenario) list" where
  "SCENARIOS =
    [(''festival_spike'',
        \<lparr>name = ''Festival Demand Spike'',
         description = ''Increased demand during festival season'',
         demand_multiplier = [(''low'', 1.2), (''medium'', 1.5), (''high'', 2.0)],
         risk_adjustment = [(''low'', 0.05), (''medium'', 0.1), (''high'', 0.15)]\<rparr>),
     (''bad_weather'',
        \<lparr>name = ''Bad Weather Conditions'',
         description = ''Heavy rainfall or extreme temperatures'',
         demand_multiplier = [(''low'', 0.95), (''medium'', 0.85), (''high'', 0.7)],
         risk_adjustment = [(''low'', 0.1), (''medium'', 0.2), (''high'', 0.35)]\<rparr>),
     (''logistics_delay'',
        \<lparr>name = ''Logistics Delay'',
         description = ''Supply chain disruption or delivery delays'',
         demand_multiplier = [(''low'', 1.0), (''medium'', 1.0), (''high'', 1.0)],
         risk_adjustment = [(''low'', 0.15), (''medium'', 0.3), (''high'', 0.5)]\<rparr>),
     (''promotion'',
        \<lparr>name = ''Promotional Campaign'',
         description = ''Marketing promotion or discount offer'',
         demand_multiplier = [(''low'', 1.3), (''medium'', 1.6), (''high'', 2.2)],
         risk_adjustment = [(''low'', 0.0), (''medium'', 0.05), (''high'', 0.1)]\<rparr>),
     (''competitor_action'',
        \<lparr>name = ''Competitor Action'',
         description = ''Competitor launches similar product or promotion'',
         demand_multiplier = [(''low'', 0.9), (''medium'', 0.75), (''high'', 0.6)],
         risk_adjustment = [(''low'', 0.05), (''medium'', 0.1), (''high'', 0.15)]\<rparr>)]"

definition apply_scenario ::
  "real list \<Rightarrow> real list \<Rightarrow> string \<Rightarrow> string \<Rightarrow> real list \<times> real list" where
  "apply_scenario demand_forecast risk_forecast scenario_type severity =
     (case map_of SCENARIOS scenario_type of
        None \<Rightarrow> (demand_forecast, risk_forecast)
      | Some scenario \<Rightarrow>
          (let demand_mult = dict_get (demand_multiplier scenario) severity 1.0;
               modified_demand = map (\<lambda>d. d * demand_mult) demand_forecast;
               risk_adj = dict_get (risk_adjustment scenario) severity 0.0;
               modified_risk = map (\<lambda>r. np_clip (r + risk_adj) 0 1) risk_forecast
           in (modified_demand, modified_risk)))"

text \<open>The severity tiers the registry defines for every scenario.\<close>

definition SEVERITIES :: "string list" where
  "SEVERITIES = [''low'', ''medium'', ''high'']"

section \<open>IEEE binary64 arithmetic\<close>














section \<open>Safe purchase window (backend/disruption.py)\<close>

text \<open>
  \<^verbatim>\<open>np.where(cond)[0]\<close>: the indices at which a boolean array holds, ascending.
\<close>

definition np_where :: "bool list \<Rightarrow> nat list" where
  "np_where cond = filter (\<lambda>i. cond ! i) [0..<length cond]"

text \<open>\<^verbatim>\<open>np.diff(a)\<close>: \<^verbatim>\<open>out[i] = a[i+1] - a[i]\<close>; one element or none gives the empty array.\<close>

fun np_diff :: "nat list \<Rightarrow> int list" where
  "np_diff (x # y # ys) = (int y - int x) # np_diff (y # ys)"
| "np_diff _ = []"

text \<open>
  \<^verbatim>\<open>np.split(ary, indices)\<close> cuts \<^verbatim>\<open>ary\<close> into \<^verbatim>\<open>ary[:i1], ary[i1:i2], ..., ary[ik:]\<close>;
  \<open>split_from st\<close> is the part of that list whose first slice starts at \<open>st\<close>.
\<close>

fun split_from :: "nat \<Rightarrow> 'a list \<Rightarrow> nat list \<Rightarrow> 'a list list" where
  "split_from st ary [] = [drop st ary]"
| "split_from st ary (i # idx) = take (i - st) (drop st ary) # split_from i ary idx"

definition np_split :: "'a list \<Rightarrow> nat list \<Rightarrow> 'a list list" where
  "np_split ary indices = split_from 0 ary indices"

text \<open>
  \<^verbatim>\<open>max(groups, key=len)\<close>: the first element of greatest length (a later element replaces the
  best one only when strictly longer); \<^verbatim>\<open>ValueError\<close> on the empty list.
\<close>

definition max_key_len :: "'a list list \<Rightarrow> error + 'a list" where
  "max_key_len groups =
     (case groups of
        [] \<Rightarrow> Inl ValueError
      | g # gs \<Rightarrow> Inr (foldl (\<lambda>best x. if length best < length x then x else best) g gs))"

text \<open>Positional indexing \<^verbatim>\<open>dates.iloc[i]\<close> / \<^verbatim>\<open>dates[i]\<close>: out of range raises.\<close>

definition item :: "'a list \<Rightarrow> nat \<Rightarrow> error + 'a" where
  "item xs i = (if i < length xs then Inr (xs ! i) else Inl IndexError)"

text \<open>
  The result tuple \<^verbatim>\<open>(start_date, end_date, num_safe_days)\<close> carries \<open>None\<close> for Python's
  \<^verbatim>\<open>None\<close>; the sentinel of "no window" is \<open>(None, None, 0)\<close>.
\<close>

definition calculate_safe_purchase_window ::
  "'d list \<Rightarrow> real list \<Rightarrow> real \<Rightarrow> error + ('d option \<times> 'd option \<times> nat)" where
  "calculate_safe_purchase_window dates risk_probabilities threshold =
     (if length dates = 0 \<or> length risk_probabilities = 0 then Inr (None, None, 0)
      else
        let safe_indices = np_where (map (\<lambda>r. r < threshold) risk_probabilities) in
        if length safe_indices = 0 then Inr (None, None, 0)
        else
          let groups = np_split safe_indices
                         (map (\<lambda>i. i + 1) (np_where (map (\<lambda>d. d \<noteq> 1) (np_diff safe_indices)))) in
          (case max_key_len groups of
             Inl e \<Rightarrow> Inl e
           | Inr longest_group \<Rightarrow>
               if length longest_group = 0 then Inr (None, None, 0)
               else
                 let start_idx = longest_group ! 0;
                     end_idx = longest_group ! (length longest_group - 1) in
                 (case item dates start_idx of
                    Inl e \<Rightarrow> Inl e
                  | Inr start_date \<Rightarrow>
                      (case item dates end_idx of
                         Inl e \<Rightarrow> Inl e
                       | Inr end_date \<Rightarrow>
                           Inr (Some start_date, Some end_date, length longest_group)))))"

text \<open>The source's \<^verbatim>\<open>groups\<close> expression, named for the proofs.\<close>

definition index_groups :: "nat list \<Rightarrow> nat list list" where
  "index_groups s = np_split s (map (\<lambda>i. i + 1) (np_where (map (\<lambda>d. d \<noteq> 1) (np_diff s))))"

text \<open>
  A safe run \<open>s..e\<close>: a non-empty range of valid positions whose risk is strictly below the
  threshold throughout.
\<close>

definition safe_run :: "real list \<Rightarrow> real \<Rightarrow> nat \<Rightarrow> nat \<Rightarrow> bool" where
  "safe_run risk t s e \<longleftrightarrow> s \<le> e \<and> e < length risk \<and> (\<forall>i \<in> {s..e}. risk ! i < t)"

text \<open>
  What the grouping establishes: the groups concatenate to the index list, each one is a
  non-empty range of consecutive numbers, and numbers of different groups are never adjacent.
\<close>

definition run_partition :: "nat list \<Rightarrow> nat list list \<Rightarrow> bool" where
  "run_partition s G \<longleftrightarrow>
     concat G = s
     \<and> (\<forall>g \<in> set G. g \<noteq> [] \<and> g = [hd g..<hd g + length g])
     \<and> sorted_wrt (\<lambda>g g'. \<forall>a \<in> set g. \<forall>b \<in> set g'. a + 1 < b) G"

section \<open>Recommendation text (backend/scenario\_simulation.py)\<close>

text \<open>
  The recommendation is a string built from literal text and formatted values. It is kept as
  the list of its pieces: a literal, a date as \<^verbatim>\<open>strftime\<close> or \<^verbatim>\<open>str\<close> prints it, an integer,
  and a float printed with \<^verbatim>\<open>:.1f\<close> (\<open>None\<close> for NaN). How a value is rendered in characters is
  not modelled.
\<close>

datatype 'd piece = Lit string | FmtDate 'd | FmtInt nat | FmtFixed1 "real option"

text \<open>
  \<^verbatim>\<open>np.mean\<close> of an empty array is NaN (a warning, no exception). On a non-empty array it is the
  binary64 mean numpy computes, by pairwise summation and one division; that computation is
  numpy's and is not interpreted here: \<open>fmean\<close> stands for it. \<^verbatim>\<open>np.max\<close> of an empty array
  raises; on a non-empty one it is the greatest element, with no rounding.
\<close>

definition np_mean :: "(real list \<Rightarrow> real) \<Rightarrow> real list \<Rightarrow> real option" where
  "np_mean fmean a = (if a = [] then None else Some (fmean a))"

fun np_max :: "real list \<Rightarrow> error + real" where
  "np_max [] = Inl ValueError"
| "np_max (x # xs) = Inr (fold max xs x)"

text \<open>\<^verbatim>\<open>x > c\<close> on a float that may be NaN: false for NaN.\<close>

definition nan_gt :: "real option \<Rightarrow> real \<Rightarrow> bool" where
  "nan_gt x c = (case x of None \<Rightarrow> False | Some v \<Rightarrow> c < v)"

text \<open>The two non-ASCII marks of the text, as their UTF-8 bytes (U+26A0 U+FE0F and U+2705).\<close>

definition WARNING_SIGN :: string where
  "WARNING_SIGN = [CHR 0xE2, CHR 0x9A, CHR 0xA0, CHR 0xEF, CHR 0xB8, CHR 0x8F]"

definition CHECK_MARK :: string where
  "CHECK_MARK = [CHR 0xE2, CHR 0x9C, CHR 0x85]"

definition get_recommendation ::
  "(real list \<Rightarrow> real) \<Rightarrow> real list \<Rightarrow> real list \<Rightarrow> 'd list \<Rightarrow> real
     \<Rightarrow> error + 'd piece list" where
  "get_recommendation fmean modified_demand modified_risk dates risk_threshold =
     (let avg_demand = np_mean fmean modified_demand;
          avg_risk = np_mean fmean modified_risk
      in case np_max modified_risk of
           Inl e \<Rightarrow> Inl e
         | Inr max_risk \<Rightarrow>
             (let safe_indices = np_where (map (\<lambda>r. r < risk_threshold) modified_risk);
                  recommendation = [Lit ''**Recommended Actions:**\<newline>\<newline>'']
              in if length safe_indices = 0 then
                   Inr (recommendation
                     @ [Lit (WARNING_SIGN @ '' **HIGH ALERT**: No safe purchase window found in this scenario.\<newline>\<newline>'')]
                     @ [Lit ''**Suggested Actions:**\<newline>'']
                     @ [Lit ''- Increase safety stock immediately\<newline>'']
                     @ [Lit ''- Activate backup suppliers\<newline>'']
                     @ [Lit ''- Consider postponing non-critical orders\<newline>'']
                     @ [Lit ''- Monitor situation closely for improvements\<newline>''])
                 else
                   (let start_idx = safe_indices ! 0;
                        end_idx = safe_indices ! (length safe_indices - 1)
                    in case item dates start_idx of
                         Inl e \<Rightarrow> Inl e
                       | Inr start_date \<Rightarrow>
                           (case item dates end_idx of
                              Inl e \<Rightarrow> Inl e
                            | Inr end_date \<Rightarrow>
                                Inr (recommendation
                                  @ [Lit (CHECK_MARK @ '' **Safe purchase window identified:**\<newline>'')]
                                  @ [Lit ''- From: '', FmtDate start_date, Lit ''\<newline>'']
                                  @ [Lit ''- To: '', FmtDate end_date, Lit ''\<newline>'']
                                  @ [Lit ''- Duration: '', FmtInt (length safe_indices), Lit '' days\<newline>\<newline>'']
                                  @ [Lit ''**Suggested Actions:**\<newline>'']
                                  @ [Lit ''- Place orders during the safe window\<newline>'']
                                  @ [Lit ''- Expected average demand: '', FmtFixed1 avg_demand, Lit '' units/day\<newline>'']
                                  @ (if nan_gt avg_risk 0.5
                                     then [Lit ''- Maintain higher safety stock due to elevated overall risk\<newline>'']
                                     else [])
                                  @ (if 0.7 < max_risk
                                     then [Lit ''- Prepare contingency plans for high-risk periods\<newline>'']
                                     else []))))))"

text \<open>The dates, integers and floats a recommendation prints, in order.\<close>

fun dates_of :: "'d piece list \<Rightarrow> 'd list" where
  "dates_of [] = []"
| "dates_of (FmtDate d # ps) = d # dates_of ps"
| "dates_of (_ # ps) = dates_of ps"

fun ints_of :: "'d piece list \<Rightarrow> nat list" where
  "ints_of [] = []"
| "ints_of (FmtInt n # ps) = n # ints_of ps"
| "ints_of (_ # ps) = ints_of ps"

fun fixed_of :: "'d piece list \<Rightarrow> real option list" where
  "fixed_of [] = []"
| "fixed_of (FmtFixed1 x # ps) = x # fixed_of ps"
| "fixed_of (_ # ps) = fixed_of ps"

text \<open>
  The two recommendations, as texts: the high alert, and the safe-window recommendation for
  a first date, a last date, a duration, the expected average demand, and the mean and peak
  risk that decide its two optional lines.
\<close>

definition HIGH_ALERT :: "'d piece list" where
  "HIGH_ALERT =
     [Lit ''**Recommended Actions:**\<newline>\<newline>'',
      Lit (WARNING_SIGN @ '' **HIGH ALERT**: No safe purchase window found in this scenario.\<newline>\<newline>''),
      Lit ''**Suggested Actions:**\<newline>'',
      Lit ''- Increase safety stock immediately\<newline>'',
      Lit ''- Activate backup suppliers\<newline>'',
      Lit ''- Consider postponing non-critical orders\<newline>'',
      Lit ''- Monitor situation closely for improvements\<newline>'']"

definition SAFE_WINDOW ::
  "'d \<Rightarrow> 'd \<Rightarrow> nat \<Rightarrow> real option \<Rightarrow> real option \<Rightarrow> real \<Rightarrow> 'd piece list" where
  "SAFE_WINDOW first_date last_date days avg_demand avg_risk max_risk =
     [Lit ''**Recommended Actions:**\<newline>\<newline>'',
      Lit (CHECK_MARK @ '' **Safe purchase window identified:**\<newline>''),
      Lit ''- From: '', FmtDate first_date, Lit ''\<newline>'',
      Lit ''- To: '', FmtDate last_date, Lit ''\<newline>'',
      Lit ''- Duration: '', FmtInt days, Lit '' days\<newline>\<newline>'',
      Lit ''**Suggested Actions:**\<newline>'',
      Lit ''- Place orders during the safe window\<newline>'',
      Lit ''- Expected average demand: '', FmtFixed1 avg_demand, Lit '' units/day\<newline>'']
     @ (if nan_gt avg_risk 0.5
        then [Lit ''- Maintain higher safety stock due to elevated overall risk\<newline>'']
        else [])
     @ (if 0.7 < max_risk
        then [Lit ''- Prepare contingency plans for high-risk periods\<newline>'']
        else [])"

text \<open>
  What the recommendation \<open>res\<close> for a demand series, a risk series, dates and a threshold is.
  With no position below the threshold: the high alert, and the window search finds no window
  either. Otherwise: the safe-window recommendation for some dates and duration, with the
  mean of the whole demand series as expected average demand; and, when the positions below
  the threshold form one single run \<open>s..e\<close>, its dates are those at \<open>s\<close> and \<open>e\<close> and its duration
  is \<open>e - s + 1\<close>, which is then also the window search's result.
\<close>

definition recommendation_contract ::
  "(real list \<Rightarrow> real) \<Rightarrow> real list \<Rightarrow> real list \<Rightarrow> 'd list \<Rightarrow> real
     \<Rightarrow> error + 'd piece list \<Rightarrow> bool" where
  "recommendation_contract fmean demand risk dates t res \<longleftrightarrow>
     (if \<exists>i < length risk. risk ! i < t
      then \<exists>d1 d2 n.
             res = Inr (SAFE_WINDOW d1 d2 n (np_mean fmean demand) (np_mean fmean risk)
                          (Max (set risk)))
           \<and> (\<forall>s e. safe_run risk t s e
                      \<and> (\<forall>i < length risk. risk ! i < t \<longrightarrow> s \<le> i \<and> i \<le> e)
                \<longrightarrow> d1 = dates ! s \<and> d2 = dates ! e \<and> n = e - s + 1
                  \<and> calculate_safe_purchase_window dates risk t = Inr (Some d1, Some d2, n))
      else res = Inr HIGH_ALERT
         \<and> calculate_safe_purchase_window dates risk t = Inr (None, None, 0))"

section \<open>Properties of the scenario engine\<close>

lemma scenario_ids: "map fst SCENARIOS =
    [''festival_spike'', ''bad_weather'', ''logistics_delay'', ''promotion'', ''competitor_action'']"
  by (simp add: SCENARIOS_def)

lemma registry_cases:
  assumes "map_of SCENARIOS sid = Some sc"
  shows "sc \<in> set (map snd SCENARIOS)"
  using assms by (metis map_of_SomeD image_eqI set_map snd_conv)

lemma registry_tiers:
  assumes "sc \<in> set (map snd SCENARIOS)"
  shows "map fst (demand_multiplier sc) = SEVERITIES \<and> map fst (risk_adjustment sc) = SEVERITIES"
  using assms by (auto simp: SCENARIOS_def SEVERITIES_def)

lemma registry_adjustments_nonneg:
  assumes "sc \<in> set (map snd SCENARIOS)"
  shows "\<forall>a \<in> set (map snd (risk_adjustment sc)). 0 \<le> a"
  using assms by (auto simp: SCENARIOS_def)


lemma dict_get_range:
  "dict_get d k dflt = dflt \<or> dict_get d k dflt \<in> set (map snd d)"
  by (auto simp: dict_get_def split: option.splits dest: map_of_SomeD intro: rev_image_eqI)

lemma known_scenario:
  assumes "sid \<in> {''festival_spike'', ''bad_weather'', ''logistics_delay'', ''promotion'', ''competitor_action''}"
  shows "\<exists>sc. map_of SCENARIOS sid = Some sc"
proof -
  from assms have "sid \<in> fst ` set SCENARIOS"
    unfolding set_map[symmetric] scenario_ids by auto
  then show ?thesis by (metis domD dom_map_of_conv_image_fst)
qed

lemma unknown_scenario:
  assumes "sid \<notin> {''festival_spike'', ''bad_weather'', ''logistics_delay'', ''promotion'', ''competitor_action''}"
  shows "map_of SCENARIOS sid = None"
proof -
  from assms have "sid \<notin> fst ` set SCENARIOS"
    unfolding set_map[symmetric] scenario_ids by auto
  then show ?thesis by (simp add: map_of_eq_None_iff)
qed

lemma unknown_tier:
  assumes "map fst d = SEVERITIES" and "sev \<notin> set SEVERITIES"
  shows "dict_get d sev dflt = dflt"
proof -
  from assms have "sev \<notin> fst ` set d" by (metis set_map)
  then have "map_of d sev = None" by (simp add: map_of_eq_None_iff)
  then show ?thesis by (simp add: dict_get_def)
qed

lemma clip_unit: "np_clip x 0 1 = (if x < 0 then 0 else if 1 < x then 1 else x)"
  by (simp add: np_clip_def min_def max_def)

text \<open>
  Claim C10. For a scenario of the registry, a severity tier and a risk series within \<open>[0, 1]\<close>,
  the adjusted risk is element-wise at least the input risk: every risk adjustment of the
  registry is non-negative and the clamp keeps values of \<open>[0, 1]\<close> that only grew.
\<close>

theorem apply_scenario_never_lowers_risk:
  assumes "sid \<in> {''festival_spike'', ''bad_weather'', ''logistics_delay'', ''promotion'', ''competitor_action''}"
    and "sev \<in> {''low'', ''medium'', ''high''}"
    and "\<forall>r \<in> set risk. 0 \<le> r \<and> r \<le> 1"
  shows "list_all2 (\<lambda>r r'. r \<le> r') risk (snd (apply_scenario demand risk sid sev))
         \<and> (\<forall>sc \<in> set (map snd SCENARIOS). \<forall>a \<in> set (map snd (risk_adjustment sc)). 0 \<le> a)"
proof
  from known_scenario[OF assms(1)] obtain sc where s: "map_of SCENARIOS sid = Some sc" ..
  then have sc: "sc \<in> set (map snd SCENARIOS)" by (rule registry_cases)
  define a where "a = dict_get (risk_adjustment sc) sev 0.0"
  have "0 \<le> a"
    using dict_get_range[of "risk_adjustment sc" sev "0.0"] registry_adjustments_nonneg[OF sc]
    unfolding a_def by auto
  then have "\<forall>r \<in> set risk. r \<le> np_clip (r + a) 0 1"
    using assms(3) by (auto simp: clip_unit)
  then have "list_all2 (\<lambda>r r'. r \<le> r') risk (map (\<lambda>r. np_clip (r + a) 0 1) risk)"
    by (simp add: list_all2_conv_all_nth)
  then show "list_all2 (\<lambda>r r'. r \<le> r') risk (snd (apply_scenario demand risk sid sev))"
    using s by (simp add: apply_scenario_def Let_def a_def)
next
  show "\<forall>sc \<in> set (map snd SCENARIOS). \<forall>a \<in> set (map snd (risk_adjustment sc)). 0 \<le> a"
    using registry_adjustments_nonneg by blast
qed

text \<open>The theorem at logistics\_delay/high, where two of three values hit the upper clamp.\<close>

theorem apply_scenario_never_lowers_risk_witness:
  "list_all2 (\<lambda>r r'. r \<le> r') [0.2, 0.9, 1] (snd (apply_scenario [100, 50, 7] [0.2, 0.9, 1] ''logistics_delay'' ''high''))
   \<and> snd (apply_scenario [100, 50, 7] [0.2, 0.9, 1] ''logistics_delay'' ''high'') = [0.7, 1, 1]"
  using apply_scenario_never_lowers_risk[of "''logistics_delay''" "''high''" "[0.2, 0.9, 1]" "[100, 50, 7]"]
  by (simp add: apply_scenario_def SCENARIOS_def dict_get_def np_clip_def Let_def)

text \<open>
  With an id outside the registry both series come back as they are. With a registered id and
  an unknown tier the multiplier and the adjustment default to 1.0 and 0.0, and the risk still
  passes through the clamp.
\<close>

lemma apply_scenario_unknown_id:
  assumes "sid \<notin> {''festival_spike'', ''bad_weather'', ''logistics_delay'', ''promotion'', ''competitor_action''}"
  shows "apply_scenario demand risk sid sev = (demand, risk)"
proof -
  from assms have "map_of SCENARIOS sid = None" by (rule unknown_scenario)
  then show ?thesis by (simp add: apply_scenario_def)
qed

lemma apply_scenario_unknown_tier:
  assumes "sid \<in> {''festival_spike'', ''bad_weather'', ''logistics_delay'', ''promotion'', ''competitor_action''}"
    and "sev \<notin> {''low'', ''medium'', ''high''}"
  shows "apply_scenario demand risk sid sev = (demand, map (\<lambda>r. np_clip r 0 1) risk)"
proof -
  from known_scenario[OF assms(1)] obtain sc where s: "map_of SCENARIOS sid = Some sc" ..
  then have sc: "sc \<in> set (map snd SCENARIOS)" by (rule registry_cases)
  from assms(2) have sev: "sev \<notin> set SEVERITIES" by (simp add: SEVERITIES_def)
  have m: "dict_get (demand_multiplier sc) sev 1.0 = 1"
    using unknown_tier[OF conjunct1[OF registry_tiers[OF sc]] sev, of "1.0"] by simp
  have a: "dict_get (risk_adjustment sc) sev 0.0 = 0"
    using unknown_tier[OF conjunct2[OF registry_tiers[OF sc]] sev, of "0.0"] by simp
  show ?thesis
    using s m a by (simp add: apply_scenario_def Let_def)
qed

lemma apply_scenario_unknown_tier_unit:
  assumes "sid \<in> {''festival_spike'', ''bad_weather'', ''logistics_delay'', ''promotion'', ''competitor_action''}"
    and "sev \<notin> {''low'', ''medium'', ''high''}"
    and "\<forall>r \<in> set risk. 0 \<le> r \<and> r \<le> 1"
  shows "apply_scenario demand risk sid sev = (demand, risk)"
proof -
  from assms(3) have "map (\<lambda>r. np_clip r 0 1) risk = risk"
    by (intro map_idI) (auto simp: clip_unit)
  with apply_scenario_unknown_tier[OF assms(1,2), of demand risk] show ?thesis by simp
qed

text \<open>
  Claim C8. For every demand series and every risk series with values in \<open>[0, 1]\<close>, a scenario
  id outside the registry or a severity outside low, medium and high makes \<open>apply_scenario\<close>
  return both series unchanged; it never fails. For an id outside the registry, such as
  \<^verbatim>\<open>nonexistent\<close>, this holds for every risk series.
\<close>

theorem apply_scenario_identity_fallback:
  "((sid \<notin> {''festival_spike'', ''bad_weather'', ''logistics_delay'', ''promotion'', ''competitor_action''}
       \<or> sev \<notin> {''low'', ''medium'', ''high''})
      \<and> (\<forall>r \<in> set risk. 0 \<le> r \<and> r \<le> 1)
     \<longrightarrow> apply_scenario demand risk sid sev = (demand, risk))
   \<and> (sid \<notin> {''festival_spike'', ''bad_weather'', ''logistics_delay'', ''promotion'', ''competitor_action''}
     \<longrightarrow> apply_scenario demand risk sid sev = (demand, risk))
   \<and> apply_scenario demand risk ''nonexistent'' ''medium'' = (demand, risk)"
proof (intro conjI impI)
  assume h: "(sid \<notin> {''festival_spike'', ''bad_weather'', ''logistics_delay'', ''promotion'', ''competitor_action''}
       \<or> sev \<notin> {''low'', ''medium'', ''high''})
      \<and> (\<forall>r \<in> set risk. 0 \<le> r \<and> r \<le> 1)"
  show "apply_scenario demand risk sid sev = (demand, risk)"
  proof (cases "sid \<in> {''festival_spike'', ''bad_weather'', ''logistics_delay'', ''promotion'', ''competitor_action''}")
    case False
    then show ?thesis by (rule apply_scenario_unknown_id)
  next
    case True
    from conjunct1[OF h] have "sev \<notin> {''low'', ''medium'', ''high''}"
    proof
      assume "sid \<notin> {''festival_spike'', ''bad_weather'', ''logistics_delay'', ''promotion'', ''competitor_action''}"
      from this True show ?thesis by (rule notE)
    next
      assume "sev \<notin> {''low'', ''medium'', ''high''}"
      then show ?thesis .
    qed
    from apply_scenario_unknown_tier_unit[OF True this conjunct2[OF h]] show ?thesis .
  qed
next
  assume "sid \<notin> {''festival_spike'', ''bad_weather'', ''logistics_delay'', ''promotion'', ''competitor_action''}"
  then show "apply_scenario demand risk sid sev = (demand, risk)"
    by (rule apply_scenario_unknown_id)
next
  have "''nonexistent'' \<notin> {''festival_spike'', ''bad_weather'', ''logistics_delay'', ''promotion'', ''competitor_action''}"
    by simp
  then show "apply_scenario demand risk ''nonexistent'' ''medium'' = (demand, risk)"
    by (rule apply_scenario_unknown_id)
qed

text \<open>The theorem at an unknown tier of a registered scenario, and at an unknown id.\<close>

theorem apply_scenario_identity_fallback_witness:
  "apply_scenario [100, 3] [0.2, 1] ''promotion'' ''extreme'' = ([100, 3], [0.2, 1])
   \<and> apply_scenario [100, 3] [0.2, 1] ''nonexistent'' ''medium'' = ([100, 3], [0.2, 1])"
  using apply_scenario_identity_fallback[of "''promotion''" "''extreme''" "[0.2, 1]" "[100, 3]"]
  by simp

section \<open>Properties of the binary64 scenario arithmetic\<close>






















section \<open>Properties of the safe-window search\<close>

lemma np_where_Nil: "np_where [] = []"
  by (simp add: np_where_def)

lemma np_where_Cons: "np_where (b # bs) = (if b then [0] else []) @ map Suc (np_where bs)"
proof -
  have "[0..<length (b # bs)] = 0 # map Suc [0..<length bs]"
    by (simp add: upt_conv_Cons map_Suc_upt del: upt_Suc)
  then show ?thesis
    by (simp add: np_where_def filter_map comp_def)
qed

lemma np_where_set: "set (np_where cond) = {i. i < length cond \<and> cond ! i}"
  by (auto simp: np_where_def)

lemma np_where_sorted: "sorted_wrt (<) (np_where cond)"
  by (simp add: np_where_def sorted_wrt_filter)

lemma split_from_shift: "split_from (Suc st) (x # ary) (map Suc idx) = split_from st ary idx"
  by (induction idx arbitrary: st) simp_all

lemma split_from_nonempty: "split_from st ary idx \<noteq> []"
  by (cases idx) simp_all

lemma split_from_extend:
  "split_from 0 (x # ary) (map Suc idx) = (x # hd (split_from 0 ary idx)) # tl (split_from 0 ary idx)"
  by (cases idx) (simp_all add: split_from_shift)

lemma split_from_cut:
  "split_from 0 (x # ary) (Suc 0 # map Suc idx) = [x] # split_from 0 ary idx"
  using split_from_shift[of 0 x ary idx] by simp

lemma index_groups_single: "index_groups [x] = [[x]]"
  by (simp add: index_groups_def np_split_def np_where_Nil)

lemma index_groups_step:
  "index_groups (x # y # ys) =
     (if int y - int x \<noteq> 1 then [x] # index_groups (y # ys)
      else (x # hd (index_groups (y # ys))) # tl (index_groups (y # ys)))"
proof -
  have s: "(\<lambda>i. i + 1) = Suc" by auto
  define c where "c = map Suc (np_where (map (\<lambda>d. d \<noteq> 1) (np_diff (y # ys))))"
  have "map Suc (np_where (map (\<lambda>d. d \<noteq> 1) (np_diff (x # y # ys)))) =
          (if int y - int x \<noteq> 1 then Suc 0 # map Suc c else map Suc c)"
    by (simp add: np_where_Cons c_def)
  then show ?thesis
    unfolding index_groups_def np_split_def s c_def[symmetric]
    using split_from_extend[of x "y # ys" c] split_from_cut[of x "y # ys" c]
    by simp
qed

lemma index_groups_nonempty: "index_groups s \<noteq> []"
  by (simp add: index_groups_def np_split_def split_from_nonempty)

lemma index_groups_partition:
  assumes "s \<noteq> []" and "sorted_wrt (<) s"
  shows "run_partition s (index_groups s)"
  using assms
proof (induction s rule: induct_list012)
  case 1
  then show ?case by simp
next
  case (2 x)
  show ?case by (simp add: index_groups_single run_partition_def)
next
  case (3 x y zs)
  from "3.prems" have xy: "x < y" and srt: "sorted_wrt (<) (y # zs)" by simp_all
  from "3.IH"(2) srt have ih: "run_partition (y # zs) (index_groups (y # zs))" by simp
  obtain g0 G' where G: "index_groups (y # zs) = g0 # G'"
    using index_groups_nonempty[of "y # zs"] by (cases "index_groups (y # zs)") auto
  from ih G have cc: "concat (g0 # G') = y # zs"
    and g0: "g0 \<noteq> []" "g0 = [hd g0..<hd g0 + length g0]"
    and rest: "\<forall>g \<in> set G'. g \<noteq> [] \<and> g = [hd g..<hd g + length g]"
    and sep0: "\<forall>g' \<in> set G'. \<forall>a \<in> set g0. \<forall>b \<in> set g'. a + 1 < b"
    and sep: "sorted_wrt (\<lambda>g g'. \<forall>a \<in> set g. \<forall>b \<in> set g'. a + 1 < b) G'"
    by (simp_all add: run_partition_def)
  from cc g0(1) have hd0: "hd g0 = y" by (cases g0) simp_all
  show ?case
  proof (cases "int y - int x \<noteq> 1")
    case True
    with xy have far: "x + 1 < y" by linarith
    have lb: "\<forall>b \<in> set (y # zs). y \<le> b" using srt by auto
    have "\<forall>g' \<in> set (g0 # G'). \<forall>b \<in> set g'. x + 1 < b"
    proof (intro ballI)
      fix g' b assume "g' \<in> set (g0 # G')" and "b \<in> set g'"
      then have "b \<in> set (concat (g0 # G'))" unfolding set_concat by blast
      then have "b \<in> set (y # zs)" unfolding cc .
      with lb have "y \<le> b" by blast
      with far show "x + 1 < b" by linarith
    qed
    then show ?thesis
      using True ih G by (simp add: index_groups_step run_partition_def)
  next
    case False
    then have yx: "y = Suc x" by linarith
    define g1 where "g1 = x # g0"
    have "[x..<x + Suc (length g0)] = x # [Suc x..<Suc x + length g0]"
      by (simp add: upt_conv_Cons del: upt_Suc)
    moreover have "g0 = [Suc x..<Suc x + length g0]"
      using g0(2) hd0 yx by simp
    ultimately have a: "g1 = [hd g1..<hd g1 + length g1]"
      by (simp add: g1_def)
    have ne: "g1 \<noteq> []" by (simp add: g1_def)
    have yin: "y \<in> set g0" using g0(1) hd0 by (metis hd_in_set)
    have b: "\<forall>g' \<in> set G'. \<forall>a \<in> set g1. \<forall>b \<in> set g'. a + 1 < b"
    proof (intro ballI)
      fix g' a b assume h: "g' \<in> set G'" "a \<in> set g1" "b \<in> set g'"
      from sep0 h(1,3) yin have "y + 1 < b" by blast
      moreover from sep0 h have "a \<noteq> x \<Longrightarrow> a + 1 < b" by (auto simp: g1_def)
      ultimately show "a + 1 < b" using yx by (cases "a = x") simp_all
    qed
    have "index_groups (x # y # zs) = g1 # G'"
      using False G by (simp add: index_groups_step g1_def)
    moreover have "concat (g1 # G') = x # y # zs" using cc by (simp add: g1_def)
    ultimately show ?thesis
      unfolding run_partition_def using a b ne rest sep by simp
  qed
qed

lemma foldl_longest_first:
  fixes g :: "'a list"
  defines "f \<equiv> \<lambda>best x. if length best < length x then x else best"
  shows "\<exists>k < length (g # gs). foldl f g gs = (g # gs) ! k
               \<and> (\<forall>j < k. length ((g # gs) ! j) < length (foldl f g gs))
               \<and> (\<forall>j < length (g # gs). length ((g # gs) ! j) \<le> length (foldl f g gs))"
proof (induction gs rule: rev_induct)
  case Nil
  show ?case by simp
next
  case (snoc x gs)
  define L where "L = g # gs"
  define r where "r = foldl f g gs"
  from snoc obtain k where k: "k < length L" "r = L ! k"
    "\<forall>j < k. length (L ! j) < length r"
    "\<forall>j < length L. length (L ! j) \<le> length r"
    unfolding L_def r_def by blast
  have app: "g # (gs @ [x]) = L @ [x]" by (simp add: L_def)
  have old: "(L @ [x]) ! j = L ! j" if "j < length L" for j
    using that by (simp add: nth_append)
  have new: "(L @ [x]) ! length L = x" by simp
  have len: "length (L @ [x]) = Suc (length L)" by simp
  have step: "foldl f g (gs @ [x]) = (if length r < length x then x else r)"
    by (simp add: r_def f_def)
  show ?case
  proof (cases "length r < length x")
    case True
    have a: "\<forall>j < length L. length ((L @ [x]) ! j) < length x"
    proof (intro allI impI)
      fix j assume j: "j < length L"
      with k(4) have "length (L ! j) \<le> length r" by blast
      with True old[OF j] show "length ((L @ [x]) ! j) < length x" by simp
    qed
    have b: "\<forall>j < length (L @ [x]). length ((L @ [x]) ! j) \<le> length x"
    proof (intro allI impI)
      fix j assume "j < length (L @ [x])"
      then consider "j < length L" | "j = length L" unfolding len by linarith
      then show "length ((L @ [x]) ! j) \<le> length x"
      proof cases
        case 1 with a show ?thesis by (simp add: less_imp_le)
      next
        case 2 then show ?thesis by (simp only: new)
      qed
    qed
    have "length L < length (L @ [x])" by simp
    with a b new True show ?thesis
      unfolding app step by (intro exI[of _ "length L"]) simp
  next
    case False
    have a: "\<forall>j < k. length ((L @ [x]) ! j) < length r"
    proof (intro allI impI)
      fix j assume j: "j < k"
      with k(1) have "j < length L" by simp
      from old[OF this] k(3) j show "length ((L @ [x]) ! j) < length r" by simp
    qed
    have b: "\<forall>j < length (L @ [x]). length ((L @ [x]) ! j) \<le> length r"
    proof (intro allI impI)
      fix j assume "j < length (L @ [x])"
      then consider "j < length L" | "j = length L" unfolding len by linarith
      then show "length ((L @ [x]) ! j) \<le> length r"
      proof cases
        case 1 with k(4) old[OF 1] show ?thesis by simp
      next
        case 2 with False show ?thesis by (simp add: new)
      qed
    qed
    have c: "(L @ [x]) ! k = r" using old[OF k(1)] k(2) by simp
    have "k < length (L @ [x])" using k(1) by simp
    with a b c False show ?thesis
      unfolding app step by (intro exI[of _ k]) simp
  qed
qed

lemma max_key_len_first:
  assumes "max_key_len G = Inr r"
  shows "\<exists>k < length G. r = G ! k \<and> (\<forall>j < k. length (G ! j) < length r)
            \<and> (\<forall>j < length G. length (G ! j) \<le> length r)"
proof -
  from assms obtain g gs where G: "G = g # gs"
    and r: "r = foldl (\<lambda>best x. if length best < length x then x else best) g gs"
    by (cases G) (simp_all add: max_key_len_def)
  from foldl_longest_first[of g gs] show ?thesis unfolding G r .
qed

lemma run_partition_group:
  assumes "run_partition s G" and "j < length G"
  shows "G ! j \<noteq> []" and "set (G ! j) = {hd (G ! j)..<hd (G ! j) + length (G ! j)}"
    and "set (G ! j) \<subseteq> set s"
proof -
  from assms have m: "G ! j \<in> set G" by simp
  with assms(1) show "G ! j \<noteq> []" by (simp add: run_partition_def)
  from m assms(1) have "G ! j = [hd (G ! j)..<hd (G ! j) + length (G ! j)]"
    by (simp add: run_partition_def)
  then have "set (G ! j) = set [hd (G ! j)..<hd (G ! j) + length (G ! j)]" by simp
  then show "set (G ! j) = {hd (G ! j)..<hd (G ! j) + length (G ! j)}" by simp
  from assms(1) have "set s = \<Union> (set ` set G)" by (auto simp: run_partition_def)
  with m show "set (G ! j) \<subseteq> set s" by blast
qed

lemma run_partition_covers:
  assumes "run_partition s G" and "x \<in> set s"
  shows "\<exists>j < length G. x \<in> set (G ! j)"
proof -
  from assms have "x \<in> \<Union> (set ` set G)" by (auto simp: run_partition_def)
  then obtain g where "g \<in> set G" "x \<in> set g" by blast
  then show ?thesis by (metis in_set_conv_nth)
qed

lemma run_partition_apart:
  assumes "run_partition s G" and "j < j'" and "j' < length G"
    and "a \<in> set (G ! j)" and "b \<in> set (G ! j')"
  shows "a + 1 < b"
  using assms by (auto simp: run_partition_def sorted_wrt_iff_nth_less)

lemma run_partition_adjacent:
  assumes "run_partition s G" and "j < length G" and "j' < length G"
    and "a \<in> set (G ! j)" and "Suc a \<in> set (G ! j')"
  shows "j = j'"
proof (rule ccontr)
  assume "j \<noteq> j'"
  then consider "j < j'" | "j' < j" by linarith
  then show False
  proof cases
    case 1
    from run_partition_apart[OF assms(1) 1 assms(3) assms(4) assms(5)] show False by simp
  next
    case 2
    from run_partition_apart[OF assms(1) 2 assms(2) assms(5) assms(4)] show False by simp
  qed
qed

lemma run_partition_interval:
  assumes "run_partition s G" and "\<forall>i \<in> {lo..lo + d}. i \<in> set s"
  shows "\<exists>j < length G. {lo..lo + d} \<subseteq> set (G ! j)"
  using assms(2)
proof (induction d)
  case 0
  then have "lo \<in> set s" by simp
  from run_partition_covers[OF assms(1) this] show ?case by simp
next
  case (Suc d)
  then have "\<forall>i \<in> {lo..lo + d}. i \<in> set s" by simp
  with Suc.IH obtain j where j: "j < length G" "{lo..lo + d} \<subseteq> set (G ! j)" by blast
  from Suc.prems have "Suc (lo + d) \<in> set s" by simp
  from run_partition_covers[OF assms(1) this]
  obtain j' where j': "j' < length G" "Suc (lo + d) \<in> set (G ! j')" by blast
  from j(2) have "lo + d \<in> set (G ! j)" by auto
  from run_partition_adjacent[OF assms(1) j(1) j'(1) this j'(2)] have "j = j'" .
  with j j' have "{lo..lo + Suc d} \<subseteq> set (G ! j)"
    by (auto simp: atLeastAtMostSuc_conv)
  with j(1) show ?case by blast
qed

lemma safe_indices_set:
  "set (np_where (map (\<lambda>r. r < t) risk)) = {i. i < length risk \<and> risk ! i < t}"
  by (auto simp: np_where_set)

lemma window_of_group:
  assumes dl: "length dates = length risk"
    and S: "S = np_where (map (\<lambda>r. r < t) risk)" and ne: "S \<noteq> []"
  shows "\<exists>k g. k < length (index_groups S) \<and> g = index_groups S ! k \<and> g \<noteq> []
           \<and> (\<forall>j < k. length (index_groups S ! j) < length g)
           \<and> (\<forall>j < length (index_groups S). length (index_groups S ! j) \<le> length g)
           \<and> calculate_safe_purchase_window dates risk t =
                Inr (Some (dates ! hd g), Some (dates ! (hd g + length g - 1)), length g)"
proof -
  let ?G = "index_groups S"
  have srt: "sorted_wrt (<) S" unfolding S by (rule np_where_sorted)
  have part: "run_partition S ?G" using ne srt by (rule index_groups_partition)
  obtain g0 gs where "?G = g0 # gs"
    using index_groups_nonempty[of S] by (cases ?G) simp_all
  then obtain g where g: "max_key_len ?G = Inr g"
    by (simp add: max_key_len_def)
  from max_key_len_first[OF g] obtain k where k: "k < length ?G" "g = ?G ! k"
      "\<forall>j < k. length (?G ! j) < length g" "\<forall>j < length ?G. length (?G ! j) \<le> length g"
    by blast
  from run_partition_group[OF part k(1)] k(2)
  have gne: "g \<noteq> []" and gset: "set g = {hd g..<hd g + length g}" and gsub: "set g \<subseteq> set S"
    by simp_all
  have geq: "g = [hd g..<hd g + length g]"
    using part k(1,2) by (simp add: run_partition_def)
  define m where "m = length g"
  have m0: "0 < m" using gne by (simp add: m_def)
  have geq': "g = [hd g..<hd g + m]" unfolding m_def by (rule geq)
  have gset': "set g = {hd g..<hd g + m}" unfolding m_def by (rule gset)
  have first: "g ! 0 = hd g" using gne by (simp add: hd_conv_nth)
  have "g ! (m - 1) = [hd g..<hd g + m] ! (m - 1)"
    using arg_cong[OF geq', of "\<lambda>l. l ! (m - 1)"] .
  also have "\<dots> = hd g + (m - 1)" using m0 by (simp del: upt_Suc)
  finally have last: "g ! (m - 1) = hd g + m - 1" using m0 by simp
  have "hd g \<in> set g" using gne by simp
  with gsub have "hd g \<in> set S" by blast
  then have b1: "hd g < length dates" unfolding S safe_indices_set dl by simp
  have "hd g + m - 1 \<in> set g" unfolding gset' using m0 by auto
  with gsub have "hd g + m - 1 \<in> set S" by blast
  then have b2: "hd g + m - 1 < length dates" unfolding S safe_indices_set dl by simp
  have rne: "risk \<noteq> []" using ne unfolding S by (auto simp: np_where_Nil)
  then have dne: "dates \<noteq> []" using dl by auto
  have "calculate_safe_purchase_window dates risk t =
          Inr (Some (dates ! hd g), Some (dates ! (hd g + m - 1)), m)"
    unfolding calculate_safe_purchase_window_def Let_def
    unfolding S[symmetric] index_groups_def[symmetric] g
    using ne rne dne gne first last b1 b2 m0 by (simp add: item_def m_def[symmetric])
  then have "calculate_safe_purchase_window dates risk t =
          Inr (Some (dates ! hd g), Some (dates ! (hd g + length g - 1)), length g)"
    unfolding m_def .
  with k gne show ?thesis by blast
qed

lemma safe_window_characterisation:
  "(dates = [] \<or> risk = [] \<longrightarrow> calculate_safe_purchase_window dates risk t = Inr (None, None, 0))
   \<and> (dates \<noteq> [] \<and> length dates = length risk \<longrightarrow>
        (if \<exists>i < length risk. risk ! i < t
         then \<exists>s e. calculate_safe_purchase_window dates risk t =
                        Inr (Some (dates ! s), Some (dates ! e), e - s + 1)
                \<and> safe_run risk t s e
                \<and> (\<forall>i. s \<le> i \<and> i \<le> e \<longrightarrow> risk ! i \<noteq> t)
                \<and> (s = 0 \<or> \<not> risk ! (s - 1) < t)
                \<and> (e + 1 = length risk \<or> \<not> risk ! (e + 1) < t)
                \<and> (\<forall>s' e'. safe_run risk t s' e' \<longrightarrow>
                       e' - s' + 1 \<le> e - s + 1 \<and> (e' - s' + 1 = e - s + 1 \<longrightarrow> s \<le> s'))
         else calculate_safe_purchase_window dates risk t = Inr (None, None, 0)))"
proof (intro conjI impI)
  assume "dates = [] \<or> risk = []"
  then show "calculate_safe_purchase_window dates risk t = Inr (None, None, 0)"
    by (auto simp: calculate_safe_purchase_window_def)
next
  assume h: "dates \<noteq> [] \<and> length dates = length risk"
  define S where "S = np_where (map (\<lambda>r. r < t) risk)"
  have Sset: "set S = {i. i < length risk \<and> risk ! i < t}"
    unfolding S_def by (rule safe_indices_set)
  show "if \<exists>i < length risk. risk ! i < t
         then \<exists>s e. calculate_safe_purchase_window dates risk t =
                        Inr (Some (dates ! s), Some (dates ! e), e - s + 1)
                \<and> safe_run risk t s e
                \<and> (\<forall>i. s \<le> i \<and> i \<le> e \<longrightarrow> risk ! i \<noteq> t)
                \<and> (s = 0 \<or> \<not> risk ! (s - 1) < t)
                \<and> (e + 1 = length risk \<or> \<not> risk ! (e + 1) < t)
                \<and> (\<forall>s' e'. safe_run risk t s' e' \<longrightarrow>
                       e' - s' + 1 \<le> e - s + 1 \<and> (e' - s' + 1 = e - s + 1 \<longrightarrow> s \<le> s'))
         else calculate_safe_purchase_window dates risk t = Inr (None, None, 0)"
  proof (cases "\<exists>i < length risk. risk ! i < t")
    case False
    then have "set S = {}" unfolding Sset by auto
    then have "S = []" by simp
    then have "calculate_safe_purchase_window dates risk t = Inr (None, None, 0)"
      unfolding calculate_safe_purchase_window_def Let_def S_def[symmetric] by simp
    with False show ?thesis by simp
  next
    case True
    then have "set S \<noteq> {}" unfolding Sset by auto
    then have ne: "S \<noteq> []" by auto
    let ?G = "index_groups S"
    have part: "run_partition S ?G"
      using ne np_where_sorted[of "map (\<lambda>r. r < t) risk"] unfolding S_def[symmetric]
      by (rule index_groups_partition)
    from window_of_group[OF conjunct2[OF h] S_def ne]
    obtain k g where k: "k < length ?G" "g = ?G ! k" "g \<noteq> []"
      "\<forall>j < k. length (?G ! j) < length g" "\<forall>j < length ?G. length (?G ! j) \<le> length g"
      and res: "calculate_safe_purchase_window dates risk t =
                Inr (Some (dates ! hd g), Some (dates ! (hd g + length g - 1)), length g)"
      by blast
    from run_partition_group[OF part k(1)] k(2)
    have gset: "set g = {hd g..<hd g + length g}" and gsub: "set g \<subseteq> set S" by simp_all
    define s where "s = hd g"
    define e where "e = hd g + length g - 1"
    from k(3) have len: "0 < length g" by simp
    then have se: "s \<le> e" and n: "length g = e - s + 1" unfolding s_def e_def by linarith+
    define m where "m = length g"
    have m0: "0 < m" using len by (simp add: m_def)
    have "{hd g..<hd g + m} = {hd g..hd g + m - 1}" using m0 by auto
    then have gint: "set g = {s..e}" unfolding gset s_def e_def m_def .
    have r1: "calculate_safe_purchase_window dates risk t =
                Inr (Some (dates ! s), Some (dates ! e), e - s + 1)"
      using res n unfolding s_def e_def by simp
    have inS: "\<forall>i \<in> {s..e}. i < length risk \<and> risk ! i < t"
      using gsub gint Sset by auto
    then have r2: "safe_run risk t s e" using se by (simp add: safe_run_def)
    have r3: "\<forall>i. s \<le> i \<and> i \<le> e \<longrightarrow> risk ! i \<noteq> t" using inS by fastforce
    have sin: "s \<in> set (?G ! k)" and ein: "e \<in> set (?G ! k)"
      using gint se k(2) by auto
    have r4: "s = 0 \<or> \<not> risk ! (s - 1) < t"
    proof (rule ccontr)
      assume "\<not> (s = 0 \<or> \<not> risk ! (s - 1) < t)"
      then have s0: "0 < s" and lt: "risk ! (s - 1) < t" by simp_all
      have "s < length risk" using inS se by auto
      then have "s - 1 \<in> set S" unfolding Sset using lt by simp
      from run_partition_covers[OF part this]
      obtain j where j: "j < length ?G" "s - 1 \<in> set (?G ! j)" by blast
      from sin s0 have "Suc (s - 1) \<in> set (?G ! k)" by simp
      from run_partition_adjacent[OF part j(1) k(1) j(2) this] have "j = k" .
      with j(2) k(2) gint have "s - 1 \<in> {s..e}" by simp
      then have "s \<le> s - 1" by simp
      with s0 show False by linarith
    qed
    have r5: "e + 1 = length risk \<or> \<not> risk ! (e + 1) < t"
    proof (rule ccontr)
      assume "\<not> (e + 1 = length risk \<or> \<not> risk ! (e + 1) < t)"
      then have e0: "e + 1 \<noteq> length risk" and lt: "risk ! (e + 1) < t" by simp_all
      have "e < length risk" using inS se by auto
      with e0 have "e + 1 < length risk" by simp
      then have "e + 1 \<in> set S" unfolding Sset using lt by simp
      from run_partition_covers[OF part this]
      obtain j where j: "j < length ?G" "Suc e \<in> set (?G ! j)" by auto
      from run_partition_adjacent[OF part k(1) j(1) ein j(2)] have "k = j" .
      with j(2) k(2) gint have "Suc e \<in> {s..e}" by simp
      then show False by simp
    qed
    have r6: "\<forall>s' e'. safe_run risk t s' e' \<longrightarrow>
                 e' - s' + 1 \<le> e - s + 1 \<and> (e' - s' + 1 = e - s + 1 \<longrightarrow> s \<le> s')"
    proof (intro allI impI)
      fix s' e' assume run: "safe_run risk t s' e'"
      then have le: "s' \<le> e'" and all: "\<forall>i \<in> {s'..e'}. i \<in> set S"
        unfolding Sset by (auto simp: safe_run_def)
      from le have e': "e' = s' + (e' - s')" by simp
      from all have "\<forall>i \<in> {s'..s' + (e' - s')}. i \<in> set S" using e' by simp
      from run_partition_interval[OF part this]
      obtain j where j: "j < length ?G" "{s'..e'} \<subseteq> set (?G ! j)" using e' by auto
      have "card {s'..e'} \<le> card (set (?G ! j))"
        by (rule card_mono) (simp, rule j(2))
      also have "\<dots> \<le> length (?G ! j)" by (rule card_length)
      finally have c: "e' - s' + 1 \<le> length (?G ! j)" using le by simp
      with k(5) j(1) n have b: "e' - s' + 1 \<le> e - s + 1" by (metis le_trans)
      have "s \<le> s'" if eq: "e' - s' + 1 = e - s + 1"
      proof -
        from eq c n have "\<not> length (?G ! j) < length g" by simp
        with k(4) have "\<not> j < k" by blast
        then consider "j = k" | "k < j" by linarith
        then show ?thesis
        proof cases
          case 1
          with j(2) k(2) gint le have "s' \<in> {s..e}" by auto
          then show ?thesis by simp
        next
          case 2
          have "s' \<in> set (?G ! j)" using j(2) le by auto
          from run_partition_apart[OF part 2 j(1) sin this] show ?thesis by simp
        qed
      qed
      with b show "e' - s' + 1 \<le> e - s + 1 \<and> (e' - s' + 1 = e - s + 1 \<longrightarrow> s \<le> s')" by blast
    qed
    from True r1 r2 r3 r4 r5 r6 show ?thesis by (simp only: if_True) blast
  qed
qed


text \<open>
  Claim C1. With an empty date or risk sequence the search returns \<open>(None, None, 0)\<close>. For
  non-empty sequences of equal length: when no position has risk strictly below the
  threshold it returns \<open>(None, None, 0)\<close>; otherwise it returns the dates at \<open>s\<close> and \<open>e\<close> and the
  length \<open>e - s + 1\<close> of a safe run \<open>s..e\<close> that cannot be extended to either side, no safe run is
  longer, and every safe run of the same length starts at \<open>s\<close> or later. No position of the
  window has risk equal to the threshold.
\<close>

theorem calculate_safe_purchase_window_longest:
  "(dates = [] \<or> risk = [] \<longrightarrow> calculate_safe_purchase_window dates risk t = Inr (None, None, 0))
   \<and> (dates \<noteq> [] \<and> length dates = length risk \<longrightarrow>
        (if \<exists>i < length risk. risk ! i < t
         then \<exists>s e. calculate_safe_purchase_window dates risk t =
                        Inr (Some (dates ! s), Some (dates ! e), e - s + 1)
                \<and> safe_run risk t s e
                \<and> (\<forall>i. s \<le> i \<and> i \<le> e \<longrightarrow> risk ! i \<noteq> t)
                \<and> (s = 0 \<or> \<not> risk ! (s - 1) < t)
                \<and> (e + 1 = length risk \<or> \<not> risk ! (e + 1) < t)
                \<and> (\<forall>s' e'. safe_run risk t s' e' \<longrightarrow>
                       e' - s' + 1 \<le> e - s + 1 \<and> (e' - s' + 1 = e - s + 1 \<longrightarrow> s \<le> s'))
         else calculate_safe_purchase_window dates risk t = Inr (None, None, 0)))"
  by (rule safe_window_characterisation)

text \<open>
  The theorem at the series \<open>0.1, 0.4, 0.2, 0.2, 0.5, 0.1, 0.1, 0.1\<close> with threshold \<open>0.3\<close>:
  the window is positions 5 to 7, of length 3, not the earlier run 2 to 3.
\<close>

theorem calculate_safe_purchase_window_longest_witness:
  "calculate_safe_purchase_window [10, 11, 12, 13, 14, 15, 16, 17 :: nat]
       [0.1, 0.4, 0.2, 0.2, 0.5, 0.1, 0.1, 0.1] 0.3 = Inr (Some 15, Some 17, 3)
   \<and> (\<exists>s e. calculate_safe_purchase_window [10, 11, 12, 13, 14, 15, 16, 17 :: nat]
                [0.1, 0.4, 0.2, 0.2, 0.5, 0.1, 0.1, 0.1] 0.3 =
                  Inr (Some ([10, 11, 12, 13, 14, 15, 16, 17] ! s),
                       Some ([10, 11, 12, 13, 14, 15, 16, 17] ! e), e - s + 1)
            \<and> safe_run [0.1, 0.4, 0.2, 0.2, 0.5, 0.1, 0.1, 0.1] 0.3 s e
            \<and> (\<forall>i. s \<le> i \<and> i \<le> e \<longrightarrow> [0.1, 0.4, 0.2, 0.2, 0.5, 0.1, 0.1, 0.1] ! i \<noteq> (0.3 :: real))
            \<and> (s = 0 \<or> \<not> [0.1, 0.4, 0.2, 0.2, 0.5, 0.1, 0.1, 0.1] ! (s - 1) < (0.3 :: real))
            \<and> (e + 1 = length [0.1, 0.4, 0.2, 0.2, 0.5, 0.1, 0.1, 0.1 :: real]
                 \<or> \<not> [0.1, 0.4, 0.2, 0.2, 0.5, 0.1, 0.1, 0.1] ! (e + 1) < (0.3 :: real))
            \<and> (\<forall>s' e'. safe_run [0.1, 0.4, 0.2, 0.2, 0.5, 0.1, 0.1, 0.1] 0.3 s' e' \<longrightarrow>
                   e' - s' + 1 \<le> e - s + 1 \<and> (e' - s' + 1 = e - s + 1 \<longrightarrow> s \<le> s')))"
proof (rule conjI)
  show "calculate_safe_purchase_window [10, 11, 12, 13, 14, 15, 16, 17 :: nat]
       [0.1, 0.4, 0.2, 0.2, 0.5, 0.1, 0.1, 0.1] 0.3 = Inr (Some 15, Some 17, 3)"
    by (simp add: calculate_safe_purchase_window_def np_where_Cons np_where_Nil np_split_def
        max_key_len_def item_def Let_def)
next
  let ?D = "[10, 11, 12, 13, 14, 15, 16, 17 :: nat]"
  let ?R = "[0.1, 0.4, 0.2, 0.2, 0.5, 0.1, 0.1, 0.1 :: real]"
  have h1: "?D \<noteq> [] \<and> length ?D = length ?R" by simp
  have h2: "\<exists>i < length ?R. ?R ! i < 0.3" by (rule exI[of _ 0]) simp
  note inst = calculate_safe_purchase_window_longest[of ?D ?R "0.3"]
  from mp[OF conjunct2[OF inst] h1] h2
  show "\<exists>s e. calculate_safe_purchase_window ?D ?R 0.3 =
                        Inr (Some (?D ! s), Some (?D ! e), e - s + 1)
                \<and> safe_run ?R 0.3 s e
                \<and> (\<forall>i. s \<le> i \<and> i \<le> e \<longrightarrow> ?R ! i \<noteq> 0.3)
                \<and> (s = 0 \<or> \<not> ?R ! (s - 1) < 0.3)
                \<and> (e + 1 = length ?R \<or> \<not> ?R ! (e + 1) < 0.3)
                \<and> (\<forall>s' e'. safe_run ?R 0.3 s' e' \<longrightarrow>
                       e' - s' + 1 \<le> e - s + 1 \<and> (e' - s' + 1 = e - s + 1 \<longrightarrow> s \<le> s'))"
    by (simp only: if_True)
qed

section \<open>Properties of the recommendation\<close>

lemma safe_indices_contiguous:
  assumes run: "safe_run risk t s e"
    and only: "\<forall>i < length risk. risk ! i < t \<longrightarrow> s \<le> i \<and> i \<le> e"
  shows "np_where (map (\<lambda>r. r < t) risk) = [s..<Suc e]"
proof -
  let ?S = "np_where (map (\<lambda>r. r < t) risk)"
  from run have e: "e < length risk" and all: "\<forall>i \<in> {s..e}. risk ! i < t"
    by (simp_all add: safe_run_def)
  have "{i. i < length risk \<and> risk ! i < t} = {s..e}"
  proof (intro set_eqI iffI)
    fix i assume "i \<in> {i. i < length risk \<and> risk ! i < t}"
    with only show "i \<in> {s..e}" by simp
  next
    fix i assume i: "i \<in> {s..e}"
    with e have "i < length risk" by simp
    with all i show "i \<in> {i. i < length risk \<and> risk ! i < t}" by blast
  qed
  moreover have "set [s..<Suc e] = {s..e}"
    by (simp only: set_upt atLeastLessThanSuc_atLeastAtMost)
  ultimately have "set ?S = set [s..<Suc e]"
    unfolding safe_indices_set by (rule trans_sym)
  moreover have "sorted ?S" and "distinct ?S"
    using np_where_sorted[of "map (\<lambda>r. r < t) risk"] by (simp_all add: strict_sorted_iff)
  moreover have "sorted [s..<Suc e]" and "distinct [s..<Suc e]"
    by (simp_all only: sorted_upt distinct_upt)
  ultimately show ?thesis by (rule sorted_distinct_set_unique[rotated 4])
qed


lemma np_max_nonempty: "a \<noteq> [] \<Longrightarrow> np_max a = Inr (Max (set a))"
proof (cases a)
  case Nil
  assume "a \<noteq> []"
  with Nil show ?thesis by simp
next
  case (Cons x xs)
  have "Max (set (x # xs)) = fold max xs x" by (rule Max.set_eq_fold)
  with Cons show ?thesis by simp
qed

lemma no_safe_index:
  "np_where (map (\<lambda>r. r < t) risk) = [] \<longleftrightarrow> \<not> (\<exists>i < length risk. risk ! i < t)"
proof -
  have "np_where (map (\<lambda>r. r < t) risk) = [] \<longleftrightarrow> set (np_where (map (\<lambda>r. r < t) risk)) = {}"
    by simp
  also have "\<dots> \<longleftrightarrow> \<not> (\<exists>i < length risk. risk ! i < t)"
    unfolding safe_indices_set by blast
  finally show ?thesis .
qed

lemma get_recommendation_alert:
  assumes "risk \<noteq> []" and "\<not> (\<exists>i < length risk. risk ! i < t)"
  shows "get_recommendation fmean demand risk dates t = Inr HIGH_ALERT"
proof -
  from assms(2) have S: "np_where (map (\<lambda>r. r < t) risk) = []" by (simp add: no_safe_index)
  note m = np_max_nonempty[OF assms(1)]
  show ?thesis
    unfolding get_recommendation_def Let_def S m HIGH_ALERT_def by simp
qed

lemma get_recommendation_window:
  assumes dl: "length dates = length risk" and ex: "\<exists>i < length risk. risk ! i < t"
    and S: "S = np_where (map (\<lambda>r. r < t) risk)"
  shows "get_recommendation fmean demand risk dates t =
           Inr (SAFE_WINDOW (dates ! (S ! 0)) (dates ! (S ! (length S - 1))) (length S)
                  (np_mean fmean demand) (np_mean fmean risk) (Max (set risk)))"
proof -
  from ex have ne: "S \<noteq> []" unfolding S by (simp only: no_safe_index) simp
  then have "S ! 0 \<in> set S" and "S ! (length S - 1) \<in> set S" by simp_all
  then have b: "S ! 0 < length dates" "S ! (length S - 1) < length dates"
    unfolding S safe_indices_set dl by simp_all
  from ex have "risk \<noteq> []" by auto
  note m = np_max_nonempty[OF this]
  show ?thesis
    unfolding get_recommendation_def Let_def S[symmetric] m SAFE_WINDOW_def
    using ne b by (simp add: item_def)
qed

lemma text_figures:
  "dates_of (HIGH_ALERT :: 'd piece list) = []"
  "ints_of (HIGH_ALERT :: 'd piece list) = []"
  "fixed_of (HIGH_ALERT :: 'd piece list) = []"
  "dates_of (SAFE_WINDOW d1 d2 n a r m) = [d1, d2]"
  "ints_of (SAFE_WINDOW d1 d2 n a r m) = [n]"
  "fixed_of (SAFE_WINDOW d1 d2 n a r m) = [a]"
  by (simp_all add: HIGH_ALERT_def SAFE_WINDOW_def)

text \<open>
  Claim C3, amended. For a non-empty adjusted risk series and as many dates,
  \<open>get_recommendation\<close> returns a text. When no position has risk strictly below the threshold
  (the window search then finds no window) it is the high-alert recommendation, which names
  no date and no figure. Otherwise it is the safe-window recommendation: it names a first and
  a last date and a duration, gives the mean of the whole adjusted demand series as the
  expected average demand, its only demand figure (no order quantity), and adds one line when
  the mean risk exceeds 0.5 and one when the peak risk exceeds 0.7. When the positions below
  the threshold form a single run, the dates and the duration are those of the window the
  search returns.
\<close>

theorem get_recommendation_reports:
  assumes "modified_risk \<noteq> []" and "length dates = length modified_risk"
  shows "recommendation_contract fmean modified_demand modified_risk dates risk_threshold
           (get_recommendation fmean modified_demand modified_risk dates risk_threshold)
         \<and> dates_of (HIGH_ALERT :: 'd piece list) = []
         \<and> ints_of (HIGH_ALERT :: 'd piece list) = []
         \<and> fixed_of (HIGH_ALERT :: 'd piece list) = []
         \<and> fixed_of (SAFE_WINDOW (d1 :: 'd) d2 n avg_demand avg_risk max_risk) = [avg_demand]"
proof (intro conjI)
  show "dates_of (HIGH_ALERT :: 'd piece list) = []" by (rule text_figures)
  show "ints_of (HIGH_ALERT :: 'd piece list) = []" by (rule text_figures)
  show "fixed_of (HIGH_ALERT :: 'd piece list) = []" by (rule text_figures)
  show "fixed_of (SAFE_WINDOW d1 d2 n avg_demand avg_risk max_risk) = [avg_demand]"
    by (rule text_figures)
  from assms have dne: "dates \<noteq> [] \<and> length dates = length modified_risk" by auto
  note win = mp[OF conjunct2[OF safe_window_characterisation[of dates modified_risk risk_threshold]] dne]
  show "recommendation_contract fmean modified_demand modified_risk dates risk_threshold
           (get_recommendation fmean modified_demand modified_risk dates risk_threshold)"
  proof (cases "\<exists>i < length modified_risk. modified_risk ! i < risk_threshold")
    case False
    from win have w: "calculate_safe_purchase_window dates modified_risk risk_threshold =
                        Inr (None, None, 0)"
      unfolding if_not_P[OF False] .
    show ?thesis
      unfolding recommendation_contract_def if_not_P[OF False]
      by (rule conjI, rule get_recommendation_alert[OF assms(1) False], rule w)
  next
    case True
    define S where "S = np_where (map (\<lambda>r. r < risk_threshold) modified_risk)"
    note out = get_recommendation_window[OF assms(2) True S_def, of fmean modified_demand]
    from win have "\<exists>s e. calculate_safe_purchase_window dates modified_risk risk_threshold =
                        Inr (Some (dates ! s), Some (dates ! e), e - s + 1)
                \<and> safe_run modified_risk risk_threshold s e
                \<and> (\<forall>i. s \<le> i \<and> i \<le> e \<longrightarrow> modified_risk ! i \<noteq> risk_threshold)
                \<and> (s = 0 \<or> \<not> modified_risk ! (s - 1) < risk_threshold)
                \<and> (e + 1 = length modified_risk \<or> \<not> modified_risk ! (e + 1) < risk_threshold)
                \<and> (\<forall>s' e'. safe_run modified_risk risk_threshold s' e' \<longrightarrow>
                       e' - s' + 1 \<le> e - s + 1 \<and> (e' - s' + 1 = e - s + 1 \<longrightarrow> s \<le> s'))"
      unfolding if_P[OF True] .
    then obtain s0 where "\<exists>e. calculate_safe_purchase_window dates modified_risk risk_threshold =
                        Inr (Some (dates ! s0), Some (dates ! e), e - s0 + 1)
                \<and> safe_run modified_risk risk_threshold s0 e
                \<and> (\<forall>i. s0 \<le> i \<and> i \<le> e \<longrightarrow> modified_risk ! i \<noteq> risk_threshold)
                \<and> (s0 = 0 \<or> \<not> modified_risk ! (s0 - 1) < risk_threshold)
                \<and> (e + 1 = length modified_risk \<or> \<not> modified_risk ! (e + 1) < risk_threshold)
                \<and> (\<forall>s' e'. safe_run modified_risk risk_threshold s' e' \<longrightarrow>
                       e' - s' + 1 \<le> e - s0 + 1 \<and> (e' - s' + 1 = e - s0 + 1 \<longrightarrow> s0 \<le> s'))" ..
    then obtain e0 where p: "calculate_safe_purchase_window dates modified_risk risk_threshold =
                        Inr (Some (dates ! s0), Some (dates ! e0), e0 - s0 + 1)
                \<and> safe_run modified_risk risk_threshold s0 e0
                \<and> (\<forall>i. s0 \<le> i \<and> i \<le> e0 \<longrightarrow> modified_risk ! i \<noteq> risk_threshold)
                \<and> (s0 = 0 \<or> \<not> modified_risk ! (s0 - 1) < risk_threshold)
                \<and> (e0 + 1 = length modified_risk \<or> \<not> modified_risk ! (e0 + 1) < risk_threshold)
                \<and> (\<forall>s' e'. safe_run modified_risk risk_threshold s' e' \<longrightarrow>
                       e' - s' + 1 \<le> e0 - s0 + 1 \<and> (e' - s' + 1 = e0 - s0 + 1 \<longrightarrow> s0 \<le> s'))" ..
    note w = conjunct1[OF p]
    note run0 = conjunct1[OF conjunct2[OF p]]
    note best = conjunct2[OF conjunct2[OF conjunct2[OF conjunct2[OF conjunct2[OF p]]]]]
    have cont: "dates ! (S ! 0) = dates ! s \<and> dates ! (S ! (length S - 1)) = dates ! e
           \<and> length S = e - s + 1
           \<and> calculate_safe_purchase_window dates modified_risk risk_threshold =
                Inr (Some (dates ! (S ! 0)), Some (dates ! (S ! (length S - 1))), length S)"
      if run: "safe_run modified_risk risk_threshold s e"
        and only: "\<forall>i < length modified_risk. modified_risk ! i < risk_threshold \<longrightarrow> s \<le> i \<and> i \<le> e"
      for s e
    proof -
      have Seq: "S = [s..<Suc e]" unfolding S_def using run only by (rule safe_indices_contiguous)
      from run have se: "s \<le> e" by (simp add: safe_run_def)
      have len: "length S = e - s + 1" unfolding Seq using se by (simp del: upt_Suc)
      have f: "S ! 0 = s" unfolding Seq using se by (simp del: upt_Suc)
      have "S ! (length S - 1) = [s..<Suc e] ! (e - s)" unfolding len unfolding Seq by simp
      also have "\<dots> = e" using se by (simp del: upt_Suc)
      finally have l: "S ! (length S - 1) = e" .
      from run0 have s0e0: "s0 \<le> e0" "e0 < length modified_risk"
        "modified_risk ! s0 < risk_threshold" "modified_risk ! e0 < risk_threshold"
        by (auto simp: safe_run_def)
      from only s0e0(1,2,3) have "s \<le> s0" by auto
      moreover from only s0e0(2,4) have "e0 \<le> e" by auto
      moreover from spec[OF spec[OF best], of s e] run have "e - s + 1 \<le> e0 - s0 + 1" by simp
      ultimately have "s0 = s" "e0 = e" using s0e0(1) se by linarith+
      with w len f l show ?thesis by simp
    qed
    have c2: "\<forall>s e. safe_run modified_risk risk_threshold s e
                      \<and> (\<forall>i < length modified_risk.
                            modified_risk ! i < risk_threshold \<longrightarrow> s \<le> i \<and> i \<le> e)
                \<longrightarrow> dates ! (S ! 0) = dates ! s \<and> dates ! (S ! (length S - 1)) = dates ! e
                  \<and> length S = e - s + 1
                  \<and> calculate_safe_purchase_window dates modified_risk risk_threshold =
                      Inr (Some (dates ! (S ! 0)), Some (dates ! (S ! (length S - 1))), length S)"
    proof (intro allI impI)
      fix s e
      assume h: "safe_run modified_risk risk_threshold s e
                      \<and> (\<forall>i < length modified_risk.
                            modified_risk ! i < risk_threshold \<longrightarrow> s \<le> i \<and> i \<le> e)"
      show "dates ! (S ! 0) = dates ! s \<and> dates ! (S ! (length S - 1)) = dates ! e
                  \<and> length S = e - s + 1
                  \<and> calculate_safe_purchase_window dates modified_risk risk_threshold =
                      Inr (Some (dates ! (S ! 0)), Some (dates ! (S ! (length S - 1))), length S)"
        using cont[OF conjunct1[OF h] conjunct2[OF h]] .
    qed
    show ?thesis
      unfolding recommendation_contract_def if_P[OF True]
      by (rule exI[of _ "dates ! (S ! 0)"], rule exI[of _ "dates ! (S ! (length S - 1))"],
          rule exI[of _ "length S"], rule conjI, rule out, rule c2)
  qed
qed

text \<open>
  The theorem at a four-day series whose first two days are safe. The sums and the two
  divisions by 4 are exact in binary64, so the exact mean stands for numpy's here.
\<close>

theorem get_recommendation_reports_witness:
  "get_recommendation (\<lambda>a. sum_list a / real (length a)) [10, 20, 30, 40] [0.25, 0.125, 0.5, 0.875]
        [100, 101, 102, 103 :: nat] 0.3 =
     Inr (SAFE_WINDOW 100 101 2 (Some 25) (Some 0.4375) 0.875)
   \<and> calculate_safe_purchase_window [100, 101, 102, 103 :: nat] [0.25, 0.125, 0.5, 0.875] 0.3 =
        Inr (Some 100, Some 101, 2)"
proof -
  let ?f = "\<lambda>a :: real list. sum_list a / real (length a)"
  let ?M = "[10, 20, 30, 40 :: real]"
  let ?R = "[0.25, 0.125, 0.5, 0.875 :: real]"
  let ?D = "[100, 101, 102, 103 :: nat]"
  have h1: "?R \<noteq> []" and h2: "length ?D = length ?R" by simp_all
  have c: "\<exists>i < length ?R. ?R ! i < 0.3" by (rule exI[of _ 0]) simp
  note inst = conjunct1[OF get_recommendation_reports[OF h1 h2, of ?f ?M "0.3"],
      unfolded recommendation_contract_def if_P[OF c]]
  then obtain d1 d2 n where o: "get_recommendation ?f ?M ?R ?D 0.3 =
        Inr (SAFE_WINDOW d1 d2 n (np_mean ?f ?M) (np_mean ?f ?R) (Max (set ?R)))
      \<and> (\<forall>s e. safe_run ?R 0.3 s e
                \<and> (\<forall>i < length ?R. ?R ! i < 0.3 \<longrightarrow> s \<le> i \<and> i \<le> e)
           \<longrightarrow> d1 = ?D ! s \<and> d2 = ?D ! e \<and> n = e - s + 1
             \<and> calculate_safe_purchase_window ?D ?R 0.3 = Inr (Some d1, Some d2, n))"
    by (elim exE)
  have run: "safe_run ?R 0.3 0 1
               \<and> (\<forall>i < length ?R. ?R ! i < 0.3 \<longrightarrow> 0 \<le> i \<and> i \<le> 1)"
    by (auto simp: safe_run_def less_Suc_eq nth_Cons' numeral_eq_Suc)
  from mp[OF spec[OF spec[OF conjunct2[OF o]]] run]
  have d: "d1 = 100" "d2 = 101" "n = 2"
    "calculate_safe_purchase_window ?D ?R 0.3 = Inr (Some d1, Some d2, n)" by simp_all
  have m: "np_mean ?f ?M = Some 25" "np_mean ?f ?R = Some 0.4375" "Max (set ?R) = 0.875"
    by (simp_all add: np_mean_def)
  from conjunct1[OF o] d show ?thesis unfolding m by simp
qed

text \<open>
  Claim C3 as stated fails. With risk \<open>0.25, 0.5, 0.125, 0.125\<close> and threshold \<open>0.3\<close> the window
  search returns days 102 to 103 (length 2), whose mean demand is 35 and whose order quantity
  would be 77; the recommendation names the dates 100 to 103, a duration of 3 days and the
  mean demand 25 of the whole series, and no order quantity. With no safe day the alert
  carries no statistics. Every sum and mean of these inputs is exact in binary64.
\<close>

theorem get_recommendation_window_counterexample:
  "calculate_safe_purchase_window [100, 101, 102, 103 :: nat] [0.25, 0.5, 0.125, 0.125] 0.3 =
      Inr (Some 102, Some 103, 2)
   \<and> get_recommendation (\<lambda>a. sum_list a / real (length a)) [10, 20, 30, 40]
        [0.25, 0.5, 0.125, 0.125] [100, 101, 102, 103 :: nat] 0.3 =
      Inr [Lit ''**Recommended Actions:**\<newline>\<newline>'',
           Lit (CHECK_MARK @ '' **Safe purchase window identified:**\<newline>''),
           Lit ''- From: '', FmtDate 100, Lit ''\<newline>'',
           Lit ''- To: '', FmtDate 103, Lit ''\<newline>'',
           Lit ''- Duration: '', FmtInt 3, Lit '' days\<newline>\<newline>'',
           Lit ''**Suggested Actions:**\<newline>'',
           Lit ''- Place orders during the safe window\<newline>'',
           Lit ''- Expected average demand: '', FmtFixed1 (Some 25), Lit '' units/day\<newline>'']
   \<and> get_recommendation (\<lambda>a. sum_list a / real (length a)) [10, 20, 30, 40]
        [0.5, 0.5, 0.75, 0.5] [100, 101, 102, 103 :: nat] 0.3 =
      Inr [Lit ''**Recommended Actions:**\<newline>\<newline>'',
           Lit (WARNING_SIGN @ '' **HIGH ALERT**: No safe purchase window found in this scenario.\<newline>\<newline>''),
           Lit ''**Suggested Actions:**\<newline>'',
           Lit ''- Increase safety stock immediately\<newline>'',
           Lit ''- Activate backup suppliers\<newline>'',
           Lit ''- Consider postponing non-critical orders\<newline>'',
           Lit ''- Monitor situation closely for improvements\<newline>'']"
  by (simp add: calculate_safe_purchase_window_def get_recommendation_def np_where_Cons
      np_where_Nil np_split_def max_key_len_def item_def np_mean_def nan_gt_def Let_def)

end
